theory Spec2Isabelle
  imports Complex_Main
begin

section \<open>Condenser-compatible response objects (hive/server/bridge_api/objects.py)\<close>

subsection \<open>Python exceptions\<close>

text \<open>
  Every exception the module or one of its collaborators can raise is a value of
  \<open>error\<close>; a call that can raise returns \<open>error + 'a\<close> with \<open>Inl\<close> for the
  exception.
\<close>

datatype error = AssertionError | KeyError | ValueError | TypeError

definition bind_err :: "error + 'a \<Rightarrow> ('a \<Rightarrow> error + 'b) \<Rightarrow> error + 'b" where
  "bind_err r f = (case r of Inl e \<Rightarrow> Inl e | Inr v \<Rightarrow> f v)"

subsection \<open>Python string primitives\<close>

text \<open>
  \<open>s.split(sep)\<close> with a one-character separator: the text is cut at every
  occurrence of the separator, empty pieces are kept, and the empty text gives one
  empty piece.
\<close>

fun split :: "char \<Rightarrow> string \<Rightarrow> string list" where
  "split sep [] = [[]]"
| "split sep (c # cs) =
     (if c = sep then [] # split sep cs
      else (case split sep cs of
              [] \<Rightarrow> [[c]]
            | w # ws \<Rightarrow> (c # w) # ws))"

text \<open>\<open>sep.join(pieces)\<close>.\<close>

fun join :: "string \<Rightarrow> string list \<Rightarrow> string" where
  "join sep [] = []"
| "join sep [w] = w"
| "join sep (w # v # ws) = w @ sep @ join sep (v # ws)"

subsection \<open>Timestamp formatter\<close>

text \<open>
  \<^verbatim>\<open>
  def _json_date(date=None):
      if not date: return '1969-12-31T23:59:59'
      return 'T'.join(str(date).split(' '))
  \<close>
  A stored date is absent (\<open>None\<close>) or the text \<open>str(date)\<close> renders; the empty
  text is falsy as \<open>None\<close> is.
\<close>

definition json_date :: "string option \<Rightarrow> string" where
  "json_date date =
     (case date of
        None \<Rightarrow> ''1969-12-31T23:59:59''
      | Some s \<Rightarrow> if s = [] then ''1969-12-31T23:59:59''
                  else join ''T'' (split CHR '' '' s))"

subsection \<open>Amount formatter\<close>

text \<open>
  Payout amounts are decimals with three fractional digits (the \<open>payout\<close> and
  \<open>promoted\<close> columns are \<open>DECIMAL(10,3)\<close>, and an SBD asset string carries three
  decimals); an amount is the integer count of its thousandths, so that subtraction is
  exact. \<open>"%.3f" % amount\<close> prints such a value with its sign, its integer part and
  exactly three fractional digits.
\<close>

type_synonym amount = int

definition digit_char :: "nat \<Rightarrow> char" where
  "digit_char d = ''0123456789'' ! (d mod 10)"

fun show_nat :: "nat \<Rightarrow> string" where
  "show_nat n = (if n < 10 then [digit_char n] else show_nat (n div 10) @ [digit_char n])"

definition fmt3 :: "amount \<Rightarrow> string" where
  "fmt3 m =
     (let k = nat \<bar>m\<bar> in
      (if m < 0 then ''-'' else []) @ show_nat (k div 1000) @ ''.'' @
      [digit_char (k div 100), digit_char (k div 10), digit_char k])"

text \<open>
  \<^verbatim>\<open>
  def _amount(amount, asset='SBD'):
      assert asset == 'SBD', 'unhandled asset %s' % asset
      return "%.3f SBD" % amount
  \<close>
\<close>

definition amount :: "amount \<Rightarrow> string \<Rightarrow> error + string" where
  "amount a asset =
     (if asset = ''SBD'' then Inr (fmt3 a @ '' SBD'') else Inl AssertionError)"


subsection \<open>Collaborators\<close>

text \<open>
  The values \<open>json.loads\<close> returns. The module reads keys of the parsed legacy object
  and copies what it finds.
\<close>

datatype json =
    JNull
  | JBool bool
  | JInt int
  | JFloat rat
  | JStr string
  | JArr "json list"
  | JObj "(string \<times> json) list"

text \<open>\<open>obj[key]\<close> for a text key: only a dict can be indexed by a text.\<close>

definition getitem :: "json \<Rightarrow> string \<Rightarrow> error + json" where
  "getitem obj key =
     (case obj of
        JObj kvs \<Rightarrow> (case map_of kvs key of None \<Rightarrow> Inl KeyError | Some v \<Rightarrow> Inr v)
      | _ \<Rightarrow> Inl TypeError)"

text \<open>
  What \<open>rep_to_raw\<close> is applied to: the numeric \<open>reputation\<close> column of an
  account, or the text of a vote line's fourth field.
\<close>

datatype rep_score = RepNum rat | RepStr string

text \<open>
  The functions this module imports and does not define (\<open>rep_to_raw\<close> and
  \<open>sbd_amount\<close> of \<open>hive.utils.normalize\<close>, \<open>json.loads\<close> of \<open>ujson\<close>) are
  parameters, each of them free to raise. \<open>set_iter\<close> is the order in which Python
  iterates over the set built from a list of ids: the language leaves it open, so it is a
  parameter too.
\<close>

record env =
  rep_to_raw :: "rep_score \<Rightarrow> error + int"
  sbd_amount :: "json \<Rightarrow> error + amount"
  json_loads :: "string \<Rightarrow> error + json"
  set_iter :: "int list \<Rightarrow> int list"

subsection \<open>Vote list decoder\<close>

record vote =
  voter :: string
  rshares :: string
  percent :: string
  reputation :: int

text \<open>
  \<^verbatim>\<open>
  def _hydrate_active_votes(vote_csv):
      if not vote_csv: return []
      votes = []
      for line in vote_csv.split("\n"):
          voter, rshares, percent, reputation = line.split(',')
          votes.append(dict(voter=voter,
                            rshares=rshares,
                            percent=percent,
                            reputation=rep_to_raw(reputation)))
      return votes
  \<close>
  Unpacking a line that does not split into exactly four fields raises ValueError.
\<close>

fun hydrate_lines :: "env \<Rightarrow> string list \<Rightarrow> error + vote list" where
  "hydrate_lines env [] = Inr []"
| "hydrate_lines env (line # lines) =
     (case split CHR '','' line of
        [v, r, p, rep] \<Rightarrow>
          bind_err (rep_to_raw env (RepStr rep)) (\<lambda>raw.
          bind_err (hydrate_lines env lines) (\<lambda>votes.
          Inr (\<lparr>voter = v, rshares = r, percent = p, reputation = raw\<rparr> # votes)))
      | _ \<Rightarrow> Inl ValueError)"

definition hydrate_active_votes :: "env \<Rightarrow> string option \<Rightarrow> error + vote list" where
  "hydrate_active_votes env vote_csv =
     (case vote_csv of
        None \<Rightarrow> Inr []
      | Some s \<Rightarrow> if s = [] then Inr [] else hydrate_lines env (split CHR ''\<newline>'' s))"

subsection \<open>Post object builder\<close>

text \<open>A row of \<open>hive_posts_cache\<close>, with the columns \<open>load_posts_keyed\<close> selects.\<close>

record cache_row =
  row_post_id :: int
  row_author :: string
  row_permlink :: string
  row_title :: string
  row_body :: string
  row_category :: string
  row_depth :: int
  row_promoted :: amount
  row_payout :: amount
  row_payout_at :: "string option"
  row_is_paidout :: bool
  row_children :: int
  row_votes :: "string option"
  row_created_at :: "string option"
  row_updated_at :: "string option"
  row_rshares :: int
  row_raw_json :: "string option"
  row_json :: string
  row_is_hidden :: bool
  row_is_grayed :: bool
  row_total_votes :: int

text \<open>
  The \<open>stats\<close> dict of a post: three keys set by the builder, three more set by
  \<open>load_posts_keyed\<close> when the post has a row in \<open>hive_posts\<close>.
\<close>

record stats =
  hide :: bool
  gray :: bool
  total_votes :: int
  is_pinned :: "bool option"
  is_muted :: "bool option"
  is_valid :: "bool option"

record post =
  post_id :: int
  author :: string
  permlink :: string
  category :: string
  title :: string
  body :: string
  json_metadata :: string
  created :: string
  last_update :: string
  depth :: int
  children :: int
  net_rshares :: int
  last_payout :: string
  cashout_time :: string
  total_payout_value :: string
  curator_payout_value :: string
  pending_payout_value :: string
  promoted :: string
  replies :: "json list"
  body_length :: nat
  active_votes :: "vote list"
  author_reputation :: int
  post_stats :: stats
  parent_author :: json
  parent_permlink :: json
  url :: json
  root_title :: json
  beneficiaries :: json
  max_accepted_payout :: json
  percent_steem_dollars :: json

text \<open>The slice \<open>s[0:n]\<close>: a negative stop counts from the end, and both ends clamp.\<close>

definition slice0 :: "string \<Rightarrow> int \<Rightarrow> string" where
  "slice0 s n = (if n < 0 then take (nat (int (length s) + n)) s else take (nat n) s)"

text \<open>
  \<open>_condenser_post_object(row, truncate_body=0)\<close>, statement by statement. The caller
  has stored the author's reputation in the row under \<open>author_rep\<close>; here it is the
  third argument. The values are computed in the order of the source, so that the first
  exception of the source is the exception of the model; the two payout fields that the
  source assigns twice are \<open>total0\<close>, \<open>curator0\<close> and then \<open>total\<close>, \<open>curator\<close>.
\<close>

definition condenser_post_object :: "env \<Rightarrow> cache_row \<Rightarrow> rep_score \<Rightarrow> int \<Rightarrow> error + post" where
  "condenser_post_object env row author_rep truncate_body =
     (let paid = row_is_paidout row;
          cat = (if row_category row = [] then ''undefined'' else row_category row);
          shown = (if truncate_body \<noteq> 0 then slice0 (row_body row) truncate_body
                  else row_body row)
      in
      bind_err (amount (if paid then row_payout row else 0) ''SBD'') (\<lambda>total0.
      bind_err (amount 0 ''SBD'') (\<lambda>curator0.
      bind_err (amount (if paid then 0 else row_payout row) ''SBD'') (\<lambda>pending.
      bind_err (hydrate_active_votes env (row_votes row)) (\<lambda>votes.
      bind_err (rep_to_raw env author_rep) (\<lambda>author_raw.
      (case row_raw_json row of
         None \<Rightarrow> Inl AssertionError
       | Some rj \<Rightarrow>
         if rj = [] then Inl AssertionError
         else if \<not> length rj > 32 then Inl AssertionError
         else
      bind_err (json_loads env rj) (\<lambda>raw_json.
      bind_err (if row_depth row > 0
                then bind_err (getitem raw_json ''parent_author'') (\<lambda>pa.
                     bind_err (getitem raw_json ''parent_permlink'') (\<lambda>pp.
                     Inr (pa, pp)))
                else Inr (JStr [], JStr cat)) (\<lambda>(pa, pp).
      bind_err (getitem raw_json ''url'') (\<lambda>u.
      bind_err (getitem raw_json ''root_title'') (\<lambda>rt.
      bind_err (getitem raw_json ''beneficiaries'') (\<lambda>bs.
      bind_err (getitem raw_json ''max_accepted_payout'') (\<lambda>mx.
      bind_err (getitem raw_json ''percent_steem_dollars'') (\<lambda>psd.
      bind_err (if paid
                then bind_err (getitem raw_json ''curator_payout_value'') (\<lambda>cpv.
                     bind_err (sbd_amount env cpv) (\<lambda>curator_payout.
                     bind_err (amount curator_payout ''SBD'') (\<lambda>curator.
                     bind_err (amount (row_payout row - curator_payout) ''SBD'') (\<lambda>total.
                     Inr (curator, total)))))
                else Inr (curator0, total0)) (\<lambda>(curator, total).
      Inr \<lparr>post_id = row_post_id row,
           author = row_author row,
           permlink = row_permlink row,
           category = cat,
           title = row_title row,
           body = shown,
           json_metadata = row_json row,
           created = json_date (row_created_at row),
           last_update = json_date (row_updated_at row),
           depth = row_depth row,
           children = row_children row,
           net_rshares = row_rshares row,
           last_payout = json_date (if paid then row_payout_at row else None),
           cashout_time = json_date (if paid then None else row_payout_at row),
           total_payout_value = total,
           curator_payout_value = curator,
           pending_payout_value = pending,
           promoted = fmt3 (row_promoted row) @ '' SBD'',
           replies = [],
           body_length = length (row_body row),
           active_votes = votes,
           author_reputation = author_raw,
           post_stats = \<lparr>hide = row_is_hidden row, gray = row_is_grayed row,
                         total_votes = row_total_votes row,
                         is_pinned = None, is_muted = None, is_valid = None\<rparr>,
           parent_author = pa,
           parent_permlink = pp,
           url = u,
           root_title = rt,
           beneficiaries = bs,
           max_accepted_payout = mx,
           percent_steem_dollars = psd\<rparr>)))))))))))))))"

subsection \<open>Storage\<close>

text \<open>
  The tables the loaders read, with the columns their queries select. A query
  \<open>WHERE col IN :ids\<close> returns the rows of the table whose column is one of the ids;
  \<open>query_row\<close> returns the first such row, and \<open>None\<close> when there is none.
\<close>

record account_row =
  acc_name :: string
  acc_reputation :: rat

record hive_post =
  hp_id :: int
  hp_author :: string
  hp_permlink :: string
  hp_depth :: int
  hp_created_at :: "string option"
  hp_is_deleted :: bool
  hp_is_pinned :: bool
  hp_is_muted :: bool
  hp_is_valid :: bool

record db =
  hive_posts_cache :: "cache_row list"
  hive_accounts :: "account_row list"
  hive_posts :: "hive_post list"

definition query_cache :: "db \<Rightarrow> int list \<Rightarrow> cache_row list" where
  "query_cache d ids = filter (\<lambda>r. row_post_id r \<in> set ids) (hive_posts_cache d)"

definition query_flags :: "db \<Rightarrow> int list \<Rightarrow> hive_post list" where
  "query_flags d ids = filter (\<lambda>r. hp_id r \<in> set ids) (hive_posts d)"

definition query_row :: "db \<Rightarrow> int \<Rightarrow> hive_post option" where
  "query_row d i = find (\<lambda>r. hp_id r = i) (hive_posts d)"

text \<open>Whether an id has a row in the post cache.\<close>

definition cached :: "db \<Rightarrow> int \<Rightarrow> bool" where
  "cached d i = (i \<in> row_post_id ` set (hive_posts_cache d))"

subsection \<open>Batch loaders\<close>

text \<open>
  \<^verbatim>\<open>
  async def _query_author_rep_map(db, posts):
      if not posts: return {}
      names = tuple({post['author'] for post in posts})
      sql = "SELECT name, reputation FROM hive_accounts WHERE name IN :names"
      return {r['name']: r['reputation'] for r in await db.query_all(sql, names=names)}
  \<close>
\<close>

definition query_author_rep_map :: "db \<Rightarrow> cache_row list \<Rightarrow> (string \<rightharpoonup> rat)" where
  "query_author_rep_map d posts =
     (if posts = [] then Map.empty
      else foldl (\<lambda>m r. m(acc_name r \<mapsto> acc_reputation r)) Map.empty
             (filter (\<lambda>r. acc_name r \<in> row_author ` set posts) (hive_accounts d)))"

text \<open>
  The first loop of \<open>load_posts_keyed\<close>: each row gets its author's reputation (a
  KeyError when the author has no account row), is built, and is stored under its id.
\<close>

fun build_posts ::
  "env \<Rightarrow> (string \<rightharpoonup> rat) \<Rightarrow> int \<Rightarrow> cache_row list \<Rightarrow> (int \<rightharpoonup> post) \<Rightarrow> error + (int \<rightharpoonup> post)" where
  "build_posts env author_reps truncate_body [] posts_by_id = Inr posts_by_id"
| "build_posts env author_reps truncate_body (row # rows) posts_by_id =
     (case author_reps (row_author row) of
        None \<Rightarrow> Inl KeyError
      | Some rep \<Rightarrow>
          bind_err (condenser_post_object env row (RepNum rep) truncate_body) (\<lambda>p.
          build_posts env author_reps truncate_body rows
            (posts_by_id(row_post_id row \<mapsto> p))))"

text \<open>The second loop: the flags of \<open>hive_posts\<close> go into the stats of the posts built.\<close>

fun merge_flags :: "hive_post list \<Rightarrow> (int \<rightharpoonup> post) \<Rightarrow> (int \<rightharpoonup> post)" where
  "merge_flags [] posts_by_id = posts_by_id"
| "merge_flags (row # rows) posts_by_id =
     merge_flags rows
       (case posts_by_id (hp_id row) of
          None \<Rightarrow> posts_by_id
        | Some p \<Rightarrow>
            posts_by_id(hp_id row \<mapsto>
              p\<lparr>post_stats := (post_stats p)\<lparr>is_pinned := Some (hp_is_pinned row),
                                              is_muted := Some (hp_is_muted row),
                                              is_valid := Some (hp_is_valid row)\<rparr>\<rparr>))"

definition load_posts_keyed :: "env \<Rightarrow> db \<Rightarrow> int list \<Rightarrow> int \<Rightarrow> error + (int \<rightharpoonup> post)" where
  "load_posts_keyed env d ids truncate_body =
     (if ids = [] then Inl AssertionError
      else
        let result = query_cache d ids;
            author_reps = query_author_rep_map d result
        in bind_err (build_posts env author_reps truncate_body result Map.empty) (\<lambda>posts_by_id.
           Inr (merge_flags (query_flags d ids) posts_by_id)))"

text \<open>What the module writes to its logger: the level, the format and its argument.\<close>

datatype log_arg = Ids "int list" | Row hive_post

datatype log_record = Warning string log_arg | Error string log_arg

text \<open>
  What a call of \<open>load_posts\<close> leaves behind: what it returned or raised, the caller's
  list of ids as it is after the call, and the records it logged.
\<close>

record outcome =
  returned :: "error + post list"
  ids_after :: "int list"
  logged :: "log_record list"

text \<open>
  The loop over \<open>missed\<close>:
  \<^verbatim>\<open>
        for _id in missed:
            ids.remove(_id)
            sql = ("SELECT id, author, permlink, depth, created_at, is_deleted "
                   "FROM hive_posts WHERE id = :id")
            post = await db.query_row(sql, id=_id)
            if not post['is_deleted']:
                log.error("missing post: %s", dict(post))
            else:
                log.warning("requested deleted post: %s", dict(post))
  \<close>
  \<open>ids.remove\<close> deletes the first occurrence and raises ValueError when there is none;
  indexing the \<open>None\<close> of a missing row raises TypeError.
\<close>

fun recover_missed ::
  "db \<Rightarrow> int list \<Rightarrow> int list \<Rightarrow> log_record list \<Rightarrow> (error + unit) \<times> int list \<times> log_record list" where
  "recover_missed d [] ids lg = (Inr (), ids, lg)"
| "recover_missed d (i # missed) ids lg =
     (if i \<notin> set ids then (Inl ValueError, ids, lg)
      else
        (case query_row d i of
           None \<Rightarrow> (Inl TypeError, remove1 i ids, lg)
         | Some p \<Rightarrow>
             recover_missed d missed (remove1 i ids)
               (lg @ [if \<not> hp_is_deleted p then Error ''missing post: %s'' (Row p)
                      else Warning ''requested deleted post: %s'' (Row p)])))"

text \<open>\<open>[posts_by_id[_id] for _id in ids]\<close>: a KeyError at the first id that is no key.\<close>

fun getitems :: "(int \<rightharpoonup> post) \<Rightarrow> int list \<Rightarrow> error + post list" where
  "getitems posts_by_id [] = Inr []"
| "getitems posts_by_id (i # ids) =
     (case posts_by_id i of
        None \<Rightarrow> Inl KeyError
      | Some p \<Rightarrow> bind_err (getitems posts_by_id ids) (\<lambda>ps. Inr (p # ps)))"

text \<open>
  \<^verbatim>\<open>
  async def load_posts(db, ids, truncate_body=0):
      if not ids:
          return []
      posts_by_id = await load_posts_keyed(db, ids, truncate_body=truncate_body)
      missed = set(ids) - posts_by_id.keys()
      if missed:
          log.warning("get_posts do not exist in cache: %s", repr(missed))
          for _id in missed:
              ...
      return [posts_by_id[_id] for _id in ids]
  \<close>
\<close>

definition load_posts :: "env \<Rightarrow> db \<Rightarrow> int list \<Rightarrow> int \<Rightarrow> outcome" where
  "load_posts env d ids truncate_body =
     (if ids = [] then \<lparr>returned = Inr [], ids_after = ids, logged = []\<rparr>
      else
        (case load_posts_keyed env d ids truncate_body of
           Inl e \<Rightarrow> \<lparr>returned = Inl e, ids_after = ids, logged = []\<rparr>
         | Inr posts_by_id \<Rightarrow>
             let missed = set_iter env (filter (\<lambda>i. posts_by_id i = None) ids) in
             if missed \<noteq> [] then
               (case recover_missed d missed ids
                       [Warning ''get_posts do not exist in cache: %s'' (Ids missed)] of
                  (Inl e, ids', lg) \<Rightarrow> \<lparr>returned = Inl e, ids_after = ids', logged = lg\<rparr>
                | (Inr u, ids', lg) \<Rightarrow>
                    \<lparr>returned = getitems posts_by_id ids', ids_after = ids', logged = lg\<rparr>)
             else \<lparr>returned = getitems posts_by_id ids, ids_after = ids, logged = []\<rparr>))"

subsection \<open>Sample data\<close>

text \<open>
  Concrete collaborators and tables for the worked examples below. The encoder and the
  two parsers stand in for the imported ones on the few inputs the examples use: the
  reputation of a digit text is its number, an amount text \<open>N.DDD SBD\<close> is its count
  of thousandths, and the one legacy object is parsed by table.
\<close>

definition digit_val :: "char \<Rightarrow> nat option" where
  "digit_val =
     map_of [(CHR ''0'', 0), (CHR ''1'', 1), (CHR ''2'', 2), (CHR ''3'', 3), (CHR ''4'', 4),
             (CHR ''5'', 5), (CHR ''6'', 6), (CHR ''7'', 7), (CHR ''8'', 8), (CHR ''9'', 9)]"

fun read_nat :: "nat \<Rightarrow> string \<Rightarrow> nat option" where
  "read_nat acc [] = Some acc"
| "read_nat acc (c # cs) =
     (case digit_val c of None \<Rightarrow> None | Some v \<Rightarrow> read_nat (10 * acc + v) cs)"

definition sample_rep_to_raw :: "rep_score \<Rightarrow> error + int" where
  "sample_rep_to_raw r =
     (case r of
        RepNum q \<Rightarrow> Inr \<lfloor>q\<rfloor>
      | RepStr s \<Rightarrow>
          (if s = [] then Inl ValueError
           else case read_nat 0 s of None \<Rightarrow> Inl ValueError | Some n \<Rightarrow> Inr (int n)))"

definition sample_sbd_amount :: "json \<Rightarrow> error + amount" where
  "sample_sbd_amount j =
     (case j of
        JStr s \<Rightarrow>
          (case split CHR '' '' s of
             [num, unit] \<Rightarrow>
               (if unit \<noteq> ''SBD'' then Inl AssertionError
                else case split CHR ''.'' num of
                       [ip, fp] \<Rightarrow>
                         (if ip = [] \<or> length fp \<noteq> 3 then Inl ValueError
                          else case (read_nat 0 ip, read_nat 0 fp) of
                                 (Some a, Some b) \<Rightarrow> Inr (int (1000 * a + b))
                               | _ \<Rightarrow> Inl ValueError)
                     | _ \<Rightarrow> Inl ValueError)
           | _ \<Rightarrow> Inl ValueError)
      | _ \<Rightarrow> Inl TypeError)"

definition sample_raw_json :: string where
  \<open>sample_raw_json =
     ''{"parent_author":"alice","parent_permlink":"hello","url":"/life/@alice/hello","root_title":"Hello","beneficiaries":[],"max_accepted_payout":"1000000.000 SBD","percent_steem_dollars":10000,"curator_payout_value":"2.000 SBD"}''\<close>

definition sample_legacy :: json where
  "sample_legacy =
     JObj [(''parent_author'', JStr ''alice''),
           (''parent_permlink'', JStr ''hello''),
           (''url'', JStr ''/life/@alice/hello''),
           (''root_title'', JStr ''Hello''),
           (''beneficiaries'', JArr []),
           (''max_accepted_payout'', JStr ''1000000.000 SBD''),
           (''percent_steem_dollars'', JInt 10000),
           (''curator_payout_value'', JStr ''2.000 SBD'')]"

definition sample_json_loads :: "string \<Rightarrow> error + json" where
  "sample_json_loads s = (if s = sample_raw_json then Inr sample_legacy else Inl ValueError)"

definition sample_env :: env where
  "sample_env =
     \<lparr>rep_to_raw = sample_rep_to_raw, sbd_amount = sample_sbd_amount,
      json_loads = sample_json_loads, set_iter = remdups\<rparr>"

text \<open>
  A cache row of the given id, author, category, depth and paid flag, with a payout of
  10.000 and the legacy object above.
\<close>

definition sample_row :: "int \<Rightarrow> string \<Rightarrow> string \<Rightarrow> int \<Rightarrow> bool \<Rightarrow> cache_row" where
  "sample_row i a c dp paid =
     \<lparr>row_post_id = i, row_author = a, row_permlink = ''hello'', row_title = ''Hello'',
      row_body = ''Hello world'', row_category = c, row_depth = dp, row_promoted = 0,
      row_payout = 10000, row_payout_at = Some ''2020-01-09 03:04:05'',
      row_is_paidout = paid, row_children = 0,
      row_votes = Some ''alice,100,10000,1'',
      row_created_at = Some ''2020-01-02 03:04:05'',
      row_updated_at = Some ''2020-01-02 03:04:05'', row_rshares = 100,
      row_raw_json = Some sample_raw_json, row_json = ''{}'',
      row_is_hidden = False, row_is_grayed = False, row_total_votes = 1\<rparr>"

definition sample_canonical :: "int \<Rightarrow> string \<Rightarrow> bool \<Rightarrow> hive_post" where
  "sample_canonical i a deleted =
     \<lparr>hp_id = i, hp_author = a, hp_permlink = ''hello'', hp_depth = 0,
      hp_created_at = Some ''2020-01-02 03:04:05'', hp_is_deleted = deleted,
      hp_is_pinned = False, hp_is_muted = False, hp_is_valid = True\<rparr>"

text \<open>
  Posts 5 and 7 are cached; post 6 is deleted and post 8 is not, and neither has a
  cache row.
\<close>

definition sample_db :: db where
  "sample_db =
     \<lparr>hive_posts_cache = [sample_row 5 ''alice'' ''life'' 0 False,
                          sample_row 7 ''bob'' ''life'' 0 True],
      hive_accounts = [\<lparr>acc_name = ''alice'', acc_reputation = 25\<rparr>,
                       \<lparr>acc_name = ''bob'', acc_reputation = 30\<rparr>],
      hive_posts = [sample_canonical 5 ''alice'' False, sample_canonical 6 ''carol'' True,
                    sample_canonical 7 ''bob'' False, sample_canonical 8 ''dave'' False]\<rparr>"

section \<open>Properties\<close>

lemma bind_err_Inl [simp]: "bind_err (Inl e) f = Inl e"
  by (simp add: bind_err_def)

lemma bind_err_Inr [simp]: "bind_err (Inr v) f = f v"
  by (simp add: bind_err_def)

lemma bind_err_eq_Inr:
  "bind_err r f = Inr y \<longleftrightarrow> (\<exists>v. r = Inr v \<and> f v = Inr y)"
  by (cases r) simp_all


lemma split_not_Nil: "split sep s \<noteq> []"
  by (induction s) (auto split: list.splits)

lemma join_Cons:
  "ws \<noteq> [] \<Longrightarrow> join sep (w # ws) = w @ sep @ join sep ws"
  by (cases ws) simp_all

lemma join_Cons_head:
  "join sep ((c # w) # ws) = c # join sep (w # ws)"
  by (cases ws) simp_all

lemma join_split_replace:
  "join [t] (split sep s) = map (\<lambda>c. if c = sep then t else c) s"
proof (induction s)
  case Nil
  show ?case by simp
next
  case (Cons c cs)
  show ?case
  proof (cases "c = sep")
    case True
    then show ?thesis
      using Cons.IH by (simp add: join_Cons split_not_Nil)
  next
    case False
    obtain w ws where eq: "split sep cs = w # ws"
      using split_not_Nil [of sep cs] by (cases "split sep cs") auto
    from False eq Cons.IH show ?thesis
      by (simp add: join_Cons_head)
  qed
qed

text \<open>
  C7: an absent date (\<open>None\<close>, or the falsy empty text) gives the sentinel
  \<open>1969-12-31T23:59:59\<close>; a present date-time text comes back with every space
  replaced by the letter T, so \<open>2020-01-02 03:04:05\<close> becomes
  \<open>2020-01-02T03:04:05\<close>.
\<close>

theorem json_date_spec:
  "json_date None = ''1969-12-31T23:59:59''
   \<and> json_date (Some []) = ''1969-12-31T23:59:59''
   \<and> (s \<noteq> [] \<longrightarrow>
        json_date (Some s) = map (\<lambda>c. if c = CHR '' '' then CHR ''T'' else c) s)
   \<and> json_date (Some ''2020-01-02 03:04:05'') = ''2020-01-02T03:04:05''"
  by (simp add: json_date_def join_split_replace)

theorem json_date_spec_witness:
  "''2021-06-30 12:00:00'' \<noteq> []
   \<and> json_date (Some ''2021-06-30 12:00:00'') = ''2021-06-30T12:00:00''"
  using json_date_spec [of "''2021-06-30 12:00:00''"] by simp

subsection \<open>Formatting and slicing\<close>

lemma amount_SBD: "amount a ''SBD'' = Inr (fmt3 a @ '' SBD'')"
  by (simp add: amount_def)



lemma slice0_pos: "0 < n \<Longrightarrow> slice0 s n = take (nat n) s"
  by (simp add: slice0_def)

lemma slice0_neg:
  assumes "n < 0"
  shows "slice0 s n = take (length s - nat (- n)) s"
proof -
  from assms have "nat (int (length s) + n) = length s - nat (- n)"
    by linarith
  with assms show ?thesis
    by (simp add: slice0_def)
qed

subsection \<open>What a built post holds\<close>

text \<open>
  The builder is a chain of steps that can each raise. Fixing the paid flag, the sign of
  the depth and the presence of the legacy text first leaves one straight chain, which
  is then read off step by step.
\<close>

lemma cpo_body:
  assumes "condenser_post_object env row rep n = Inr p"
  shows "body_length p = length (row_body row)
         \<and> body p = (if n \<noteq> 0 then slice0 (row_body row) n else row_body row)"
  using assms unfolding condenser_post_object_def Let_def
  by (cases "row_is_paidout row"; cases "row_depth row > 0"; cases "row_raw_json row")
     (auto simp: bind_err_eq_Inr amount_SBD split: if_splits)


lemma cpo_category:
  assumes "condenser_post_object env row rep n = Inr p"
  shows "category p = (if row_category row = [] then ''undefined'' else row_category row)
         \<and> (row_depth row \<le> 0 \<longrightarrow>
               parent_author p = JStr [] \<and> parent_permlink p = JStr (category p))
         \<and> (row_depth row > 0 \<longrightarrow>
               (\<exists>rj legacy.
                  row_raw_json row = Some rj \<and> json_loads env rj = Inr legacy
                  \<and> getitem legacy ''parent_author'' = Inr (parent_author p)
                  \<and> getitem legacy ''parent_permlink'' = Inr (parent_permlink p)))"
  using assms unfolding condenser_post_object_def Let_def
  by (cases "row_is_paidout row"; cases "row_depth row > 0"; cases "row_raw_json row")
     (auto simp: bind_err_eq_Inr amount_SBD split: if_splits)

lemma cpo_post_id:
  assumes "condenser_post_object env row rep n = Inr p"
  shows "post_id p = row_post_id row"
  using assms unfolding condenser_post_object_def Let_def
  by (cases "row_is_paidout row"; cases "row_depth row > 0"; cases "row_raw_json row")
     (auto simp: bind_err_eq_Inr amount_SBD split: if_splits)

subsection \<open>The sample data evaluated\<close>

lemma sample_votes:
  "hydrate_active_votes sample_env (Some ''alice,100,10000,1'') =
     Inr [\<lparr>voter = ''alice'', rshares = ''100'', percent = ''10000'', reputation = 1\<rparr>]"
  by (simp add: hydrate_active_votes_def sample_env_def sample_rep_to_raw_def digit_val_def)

lemma sample_rep_num: "rep_to_raw sample_env (RepNum q) = Inr \<lfloor>q\<rfloor>"
  by (simp add: sample_env_def sample_rep_to_raw_def)

lemma sample_raw_json_long: "32 < length sample_raw_json"
  by (simp add: sample_raw_json_def)

lemma sample_raw_json_not_Nil: "sample_raw_json \<noteq> []"
  by (simp add: sample_raw_json_def)

lemma sample_loads: "json_loads sample_env sample_raw_json = Inr sample_legacy"
  by (simp add: sample_env_def sample_json_loads_def)

lemma sample_legacy_items:
  "getitem sample_legacy ''parent_author'' = Inr (JStr ''alice'')"
  "getitem sample_legacy ''parent_permlink'' = Inr (JStr ''hello'')"
  "getitem sample_legacy ''url'' = Inr (JStr ''/life/@alice/hello'')"
  "getitem sample_legacy ''root_title'' = Inr (JStr ''Hello'')"
  "getitem sample_legacy ''beneficiaries'' = Inr (JArr [])"
  "getitem sample_legacy ''max_accepted_payout'' = Inr (JStr ''1000000.000 SBD'')"
  "getitem sample_legacy ''percent_steem_dollars'' = Inr (JInt 10000)"
  "getitem sample_legacy ''curator_payout_value'' = Inr (JStr ''2.000 SBD'')"
  by (simp_all add: getitem_def sample_legacy_def)

lemma sample_share: "sbd_amount sample_env (JStr ''2.000 SBD'') = Inr 2000"
  by (simp add: sample_env_def sample_sbd_amount_def digit_val_def)

lemmas sample_simps =
  sample_votes sample_rep_num sample_raw_json_long sample_raw_json_not_Nil sample_loads
  sample_legacy_items sample_share amount_SBD

lemma sample_row_builds:
  "\<exists>p. condenser_post_object sample_env (sample_row i a c dp paid) (RepNum q) n = Inr p"
  unfolding condenser_post_object_def Let_def sample_row_def
  by (cases paid; cases "dp > 0") (simp_all add: sample_simps)

lemma sample_row_fields:
  "row_body (sample_row i a c dp paid) = ''Hello world''"
  "row_category (sample_row i a c dp paid) = c"
  "row_depth (sample_row i a c dp paid) = dp"
  "row_is_paidout (sample_row i a c dp paid) = paid"
  "row_payout (sample_row i a c dp paid) = 10000"
  "row_raw_json (sample_row i a c dp paid) = Some sample_raw_json"
  "row_post_id (sample_row i a c dp paid) = i"
  "row_author (sample_row i a c dp paid) = a"
  by (simp_all add: sample_row_def)

subsection \<open>Claims about the post object builder\<close>

text \<open>
  C4: in every post built from a row, \<open>body_length\<close> is the length of the stored,
  untruncated body whatever the truncation length is; \<open>body\<close> is the first \<open>n\<close>
  characters of the stored body when the truncation length \<open>n\<close> is positive, and the
  whole stored body when it is 0.
\<close>

theorem body_truncation:
  assumes "condenser_post_object env row rep n = Inr p"
  shows "body_length p = length (row_body row)
         \<and> (0 < n \<longrightarrow> body p = take (nat n) (row_body row))
         \<and> (n = 0 \<longrightarrow> body p = row_body row)"
  using cpo_body [OF assms] by (auto simp: slice0_pos)

theorem body_truncation_witness:
  "map_sum id (\<lambda>p. (body p, body_length p))
     (condenser_post_object sample_env (sample_row 5 ''alice'' ''life'' 0 False) (RepNum 25) 5)
     = Inr (''Hello'', 11)
   \<and> map_sum id (\<lambda>p. (body p, body_length p))
       (condenser_post_object sample_env (sample_row 5 ''alice'' ''life'' 0 False) (RepNum 25) 0)
       = Inr (''Hello world'', 11)"
proof -
  obtain p where p: "condenser_post_object sample_env (sample_row 5 ''alice'' ''life'' 0 False)
                       (RepNum 25) 5 = Inr p"
    using sample_row_builds by blast
  obtain q where q: "condenser_post_object sample_env (sample_row 5 ''alice'' ''life'' 0 False)
                       (RepNum 25) 0 = Inr q"
    using sample_row_builds by blast
  from body_truncation [OF p] body_truncation [OF q] show ?thesis
    by (simp add: p q sample_row_fields)
qed

text \<open>
  C10: for every negative truncation length \<open>n\<close>, the body of the built post is the
  stored body without its last \<open>|n|\<close> characters (a negative-index slice), so it is
  not the full body unless that is empty; \<open>body_length\<close> still is the length of the
  untruncated body.
\<close>

theorem negative_truncation:
  assumes "condenser_post_object env row rep n = Inr p" and "n < 0"
  shows "body p = take (length (row_body row) - nat (- n)) (row_body row)
         \<and> length (body p) = length (row_body row) - nat (- n)
         \<and> (row_body row \<noteq> [] \<longrightarrow> body p \<noteq> row_body row)
         \<and> body_length p = length (row_body row)"
proof -
  from cpo_body [OF assms(1)] assms(2)
  have b: "body p = take (length (row_body row) - nat (- n)) (row_body row)"
    and l: "body_length p = length (row_body row)"
    by (simp_all add: slice0_neg)
  from b have len: "length (body p) = length (row_body row) - nat (- n)"
    by simp
  have "body p \<noteq> row_body row" if "row_body row \<noteq> []"
  proof
    assume "body p = row_body row"
    with len have "length (row_body row) = length (row_body row) - nat (- n)"
      by simp
    moreover from that have "0 < length (row_body row)"
      by simp
    moreover from assms(2) have "0 < nat (- n)"
      by simp
    ultimately show False
      by linarith
  qed
  with b len l show ?thesis
    by blast
qed

theorem negative_truncation_witness:
  "(-3 :: int) < 0
   \<and> map_sum id (\<lambda>p. (body p, body_length p))
       (condenser_post_object sample_env (sample_row 5 ''alice'' ''life'' 0 False) (RepNum 25) (-3))
       = Inr (''Hello wo'', 11)"
proof -
  obtain p where p: "condenser_post_object sample_env (sample_row 5 ''alice'' ''life'' 0 False)
                       (RepNum 25) (-3) = Inr p"
    using sample_row_builds by blast
  have neg: "(-3 :: int) < 0"
    by simp
  from negative_truncation [OF p neg] show ?thesis
    by (simp add: p sample_row_fields)
qed



text \<open>
  C6: a post built from a row whose category is the empty text has the category
  \<open>undefined\<close>; a post built from a row of depth 0 has the empty text as parent author
  and its own category, substituted or not, as parent permlink; a post built from a row
  of positive depth has the parent author and parent permlink of the row's legacy
  object.
\<close>

theorem category_and_parent:
  assumes "condenser_post_object env row rep n = Inr p"
  shows "(row_category row = [] \<longrightarrow> category p = ''undefined'')
         \<and> (row_category row \<noteq> [] \<longrightarrow> category p = row_category row)
         \<and> (row_depth row = 0 \<longrightarrow>
               parent_author p = JStr [] \<and> parent_permlink p = JStr (category p))
         \<and> (row_depth row > 0 \<longrightarrow>
               (\<exists>rj legacy.
                  row_raw_json row = Some rj \<and> json_loads env rj = Inr legacy
                  \<and> getitem legacy ''parent_author'' = Inr (parent_author p)
                  \<and> getitem legacy ''parent_permlink'' = Inr (parent_permlink p)))"
  using cpo_category [OF assms] by simp

theorem category_and_parent_witness:
  "map_sum id (\<lambda>p. (category p, parent_author p, parent_permlink p))
     (condenser_post_object sample_env (sample_row 5 ''alice'' [] 0 False) (RepNum 25) 0)
     = Inr (''undefined'', JStr [], JStr ''undefined'')
   \<and> map_sum id (\<lambda>p. (category p, parent_author p, parent_permlink p))
       (condenser_post_object sample_env (sample_row 9 ''bob'' ''life'' 1 False) (RepNum 30) 0)
       = Inr (''life'', JStr ''alice'', JStr ''hello'')"
proof -
  obtain p where p: "condenser_post_object sample_env (sample_row 5 ''alice'' [] 0 False)
                       (RepNum 25) 0 = Inr p"
    using sample_row_builds by blast
  obtain q where q: "condenser_post_object sample_env (sample_row 9 ''bob'' ''life'' 1 False)
                       (RepNum 30) 0 = Inr q"
    using sample_row_builds by blast
  from category_and_parent [OF p]
  have "category p = ''undefined'' \<and> parent_author p = JStr []
        \<and> parent_permlink p = JStr ''undefined''"
    by (simp add: sample_row_fields)
  moreover from category_and_parent [OF q]
  have "category q = ''life'' \<and> parent_author q = JStr ''alice''
        \<and> parent_permlink q = JStr ''hello''"
    by (auto simp: sample_row_fields sample_simps)
  ultimately show ?thesis
    by (simp add: p q)
qed

text \<open>
  C9: a contract violation ends the call with an exception. The amount formatter raises
  for every asset tag other than \<open>SBD\<close>; the builder raises for every row whose legacy
  text is missing, empty or of length at most 32, and the exception is the failed
  assertion whenever the votes and the author's reputation decode.
\<close>

theorem contract_violations:
  "(asset \<noteq> ''SBD'' \<longrightarrow> amount a asset = Inl AssertionError)
   \<and> ((\<forall>rj. row_raw_json row = Some rj \<longrightarrow> length rj \<le> 32) \<longrightarrow>
         isl (condenser_post_object env row rep n)
         \<and> ((\<exists>votes raw. hydrate_active_votes env (row_votes row) = Inr votes
                         \<and> rep_to_raw env rep = Inr raw)
              \<longrightarrow> condenser_post_object env row rep n = Inl AssertionError))"
proof -
  have "isl (condenser_post_object env row rep n)
        \<and> ((\<exists>votes raw. hydrate_active_votes env (row_votes row) = Inr votes
                        \<and> rep_to_raw env rep = Inr raw)
             \<longrightarrow> condenser_post_object env row rep n = Inl AssertionError)"
    if "\<forall>rj. row_raw_json row = Some rj \<longrightarrow> length rj \<le> 32"
    using that unfolding condenser_post_object_def Let_def
    by (cases "hydrate_active_votes env (row_votes row)"; cases "rep_to_raw env rep";
        cases "row_raw_json row")
       (auto simp: amount_SBD)
  then show ?thesis
    by (simp add: amount_def)
qed

theorem contract_violations_witness:
  "''STEEM'' \<noteq> ''SBD'' \<and> amount 1000 ''STEEM'' = Inl AssertionError
   \<and> condenser_post_object sample_env
       ((sample_row 5 ''alice'' ''life'' 0 False)\<lparr>row_raw_json := None\<rparr>) (RepNum 25) 0
       = Inl AssertionError
   \<and> condenser_post_object sample_env
       ((sample_row 5 ''alice'' ''life'' 0 False)\<lparr>row_raw_json := Some ''{}''\<rparr>)
       (RepNum 25) 0
       = Inl AssertionError"
proof -
  let ?r1 = "(sample_row 5 ''alice'' ''life'' 0 False)\<lparr>row_raw_json := None\<rparr>"
  let ?r2 = "(sample_row 5 ''alice'' ''life'' 0 False)
               \<lparr>row_raw_json := Some ''{}''\<rparr>"
  have v: "hydrate_active_votes sample_env (row_votes ?r1) = Inr
             [\<lparr>voter = ''alice'', rshares = ''100'', percent = ''10000'', reputation = 1\<rparr>]"
          "hydrate_active_votes sample_env (row_votes ?r2) = Inr
             [\<lparr>voter = ''alice'', rshares = ''100'', percent = ''10000'', reputation = 1\<rparr>]"
    by (simp_all add: sample_row_def sample_votes)
  from contract_violations [of "''STEEM''" 1000 ?r1 sample_env "RepNum 25" 0]
       contract_violations [of "''STEEM''" 1000 ?r2 sample_env "RepNum 25" 0]
  show ?thesis
    using v by (simp add: sample_rep_num sample_row_def)
qed

subsection \<open>Claims about the vote list decoder\<close>

text \<open>
  A list of lines that all split into four fields, with a reputation the encoder
  accepts, decodes to one vote per line, in the order of the lines.
\<close>

lemma hydrate_lines_votes:
  assumes "\<forall>line \<in> set lines. \<exists>v r p rep raw.
             split CHR '','' line = [v, r, p, rep] \<and> rep_to_raw env (RepStr rep) = Inr raw"
  shows "\<exists>votes. hydrate_lines env lines = Inr votes
           \<and> list_all2 (\<lambda>line vt. \<exists>rep.
                 split CHR '','' line = [voter vt, rshares vt, percent vt, rep]
                 \<and> rep_to_raw env (RepStr rep) = Inr (reputation vt)) lines votes"
  using assms
proof (induction lines)
  case Nil
  show ?case by simp
next
  case (Cons line lines)
  from Cons.prems obtain v r p rep raw
    where line: "split CHR '','' line = [v, r, p, rep]"
      and raw: "rep_to_raw env (RepStr rep) = Inr raw"
    by auto
  from Cons.IH Cons.prems obtain votes
    where votes: "hydrate_lines env lines = Inr votes"
      and rest: "list_all2 (\<lambda>line vt. \<exists>rep.
                   split CHR '','' line = [voter vt, rshares vt, percent vt, rep]
                   \<and> rep_to_raw env (RepStr rep) = Inr (reputation vt)) lines votes"
    by auto
  let ?vt = "\<lparr>voter = v, rshares = r, percent = p, reputation = raw\<rparr>"
  have "hydrate_lines env (line # lines) = Inr (?vt # votes)"
    by (simp add: line raw votes)
  moreover have "\<exists>rep'. split CHR '','' line = [voter ?vt, rshares ?vt, percent ?vt, rep']
                   \<and> rep_to_raw env (RepStr rep') = Inr (reputation ?vt)"
    using line raw by simp
  ultimately show ?case
    using rest by auto
qed

text \<open>
  C8: an absent or empty vote text decodes to the empty sequence, without an exception;
  a non-empty text whose lines all have four comma-separated fields decodes to one vote
  per line, in the order of the lines, with voter, rshares and percent as the line has
  them and the reputation re-encoded by \<open>rep_to_raw\<close>.
\<close>

theorem hydrate_active_votes_spec:
  "hydrate_active_votes env None = Inr []
   \<and> hydrate_active_votes env (Some []) = Inr []
   \<and> (csv \<noteq> []
        \<and> (\<forall>line \<in> set (split CHR ''\<newline>'' csv). \<exists>v r p rep raw.
              split CHR '','' line = [v, r, p, rep] \<and> rep_to_raw env (RepStr rep) = Inr raw)
      \<longrightarrow> (\<exists>votes. hydrate_active_votes env (Some csv) = Inr votes
             \<and> list_all2 (\<lambda>line vt. \<exists>rep.
                   split CHR '','' line = [voter vt, rshares vt, percent vt, rep]
                   \<and> rep_to_raw env (RepStr rep) = Inr (reputation vt))
                 (split CHR ''\<newline>'' csv) votes))"
  using hydrate_lines_votes [of "split CHR ''\<newline>'' csv" env]
  by (simp add: hydrate_active_votes_def)

theorem hydrate_active_votes_spec_witness:
  "''alice,100,10000,1\<newline>bob,-5,200,7'' \<noteq> []
   \<and> split CHR ''\<newline>'' ''alice,100,10000,1\<newline>bob,-5,200,7''
       = [''alice,100,10000,1'', ''bob,-5,200,7'']
   \<and> hydrate_active_votes sample_env (Some ''alice,100,10000,1\<newline>bob,-5,200,7'') =
       Inr [\<lparr>voter = ''alice'', rshares = ''100'', percent = ''10000'', reputation = 1\<rparr>,
            \<lparr>voter = ''bob'', rshares = ''-5'', percent = ''200'', reputation = 7\<rparr>]"
  using hydrate_active_votes_spec [of sample_env "''alice,100,10000,1\<newline>bob,-5,200,7''"]
  by (simp add: hydrate_active_votes_def sample_env_def sample_rep_to_raw_def digit_val_def)

subsection \<open>The keyed loader and the recovery loop\<close>

text \<open>
  The mapping \<open>load_posts_keyed\<close> returns has a post for exactly the requested ids
  that have a cache row, each stored under its own id.
\<close>

lemma query_cache_ids:
  "row_post_id ` set (query_cache d ids) = {i \<in> set ids. cached d i}"
  by (auto simp: query_cache_def cached_def)

lemma build_posts_dom:
  "build_posts env reps n rows acc = Inr m \<Longrightarrow> dom m = dom acc \<union> row_post_id ` set rows"
proof (induction rows arbitrary: acc)
  case Nil
  then show ?case by simp
next
  case (Cons row rows)
  from Cons.prems obtain rep p
    where "reps (row_author row) = Some rep"
      and "condenser_post_object env row (RepNum rep) n = Inr p"
      and rest: "build_posts env reps n rows (acc(row_post_id row \<mapsto> p)) = Inr m"
    by (auto simp: bind_err_eq_Inr split: option.splits)
  from Cons.IH [OF rest] show ?case
    by auto
qed

lemma build_posts_post_id:
  "build_posts env reps n rows acc = Inr m \<Longrightarrow>
   (\<forall>i. acc i \<noteq> None \<longrightarrow> post_id (the (acc i)) = i) \<Longrightarrow>
   (\<forall>i. m i \<noteq> None \<longrightarrow> post_id (the (m i)) = i)"
proof (induction rows arbitrary: acc)
  case Nil
  then show ?case by simp
next
  case (Cons row rows)
  from Cons.prems(1) obtain rep p
    where "reps (row_author row) = Some rep"
      and p: "condenser_post_object env row (RepNum rep) n = Inr p"
      and rest: "build_posts env reps n rows (acc(row_post_id row \<mapsto> p)) = Inr m"
    by (auto simp: bind_err_eq_Inr split: option.splits)
  have "\<forall>i. (acc(row_post_id row \<mapsto> p)) i \<noteq> None
            \<longrightarrow> post_id (the ((acc(row_post_id row \<mapsto> p)) i)) = i"
    using Cons.prems(2) cpo_post_id [OF p] by simp
  from Cons.IH [OF rest this] show ?case .
qed

lemma merge_flags_dom: "dom (merge_flags rows m) = dom m"
  by (induction rows arbitrary: m) (auto split: option.splits)

lemma merge_flags_post_id:
  "(\<forall>i. m i \<noteq> None \<longrightarrow> post_id (the (m i)) = i) \<Longrightarrow>
   (\<forall>i. merge_flags rows m i \<noteq> None \<longrightarrow> post_id (the (merge_flags rows m i)) = i)"
proof (induction rows arbitrary: m)
  case Nil
  then show ?case by simp
next
  case (Cons row rows)
  show ?case
  proof (cases "m (hp_id row)")
    case None
    with Cons show ?thesis by simp
  next
    case (Some q)
    let ?q = "q\<lparr>post_stats := (post_stats q)\<lparr>is_pinned := Some (hp_is_pinned row),
                                              is_muted := Some (hp_is_muted row),
                                              is_valid := Some (hp_is_valid row)\<rparr>\<rparr>"
    have "post_id q = hp_id row"
      using Cons.prems Some by (metis option.distinct(1) option.sel)
    then have "\<forall>i. (m(hp_id row \<mapsto> ?q)) i \<noteq> None
                 \<longrightarrow> post_id (the ((m(hp_id row \<mapsto> ?q)) i)) = i"
      using Cons.prems by simp
    from Cons.IH [OF this]
    have "\<forall>i. merge_flags rows (m(hp_id row \<mapsto> ?q)) i \<noteq> None
              \<longrightarrow> post_id (the (merge_flags rows (m(hp_id row \<mapsto> ?q)) i)) = i" .
    moreover have "merge_flags (row # rows) m = merge_flags rows (m(hp_id row \<mapsto> ?q))"
      using Some by simp
    ultimately show ?thesis
      by (simp only:)
  qed
qed

lemma load_posts_keyed_keys:
  assumes "load_posts_keyed env d ids n = Inr m"
  shows "m i \<noteq> None \<longleftrightarrow> i \<in> set ids \<and> cached d i"
    and "m i \<noteq> None \<Longrightarrow> post_id (the (m i)) = i"
proof -
  from assms obtain m0
    where b: "build_posts env (query_author_rep_map d (query_cache d ids)) n
                (query_cache d ids) Map.empty = Inr m0"
      and m: "m = merge_flags (query_flags d ids) m0"
    by (auto simp: load_posts_keyed_def Let_def bind_err_eq_Inr split: if_splits)
  from build_posts_dom [OF b] have "dom m0 = {i \<in> set ids. cached d i}"
    by (simp add: query_cache_ids)
  then have "dom m = {i \<in> set ids. cached d i}"
    by (simp add: m merge_flags_dom)
  then show "m i \<noteq> None \<longleftrightarrow> i \<in> set ids \<and> cached d i"
    by (auto simp: dom_def)
  from build_posts_post_id [OF b] have "\<forall>i. m0 i \<noteq> None \<longrightarrow> post_id (the (m0 i)) = i"
    by simp
  from merge_flags_post_id [OF this] show "m i \<noteq> None \<Longrightarrow> post_id (the (m i)) = i"
    by (simp add: m)
qed

lemma getitems_Inr:
  "getitems m ids = Inr ps \<Longrightarrow> (\<forall>i \<in> set ids. m i \<noteq> None) \<and> ps = map (\<lambda>i. the (m i)) ids"
  by (induction ids arbitrary: ps) (auto simp: bind_err_eq_Inr split: option.splits)

lemma getitems_total:
  "\<forall>i \<in> set ids. m i \<noteq> None \<Longrightarrow> getitems m ids = Inr (map (\<lambda>i. the (m i)) ids)"
  by (induction ids) auto

lemma recover_missed_filter:
  "recover_missed d ms ids lg = (r, ids', lg') \<Longrightarrow> \<forall>i \<in> set ms. \<not> P i \<Longrightarrow>
   filter P ids' = filter P ids"
proof (induction ms arbitrary: ids lg)
  case Nil
  then show ?case by simp
next
  case (Cons i ms)
  have keep: "filter P (remove1 i ids) = filter P ids"
    using Cons.prems(2) by (induction ids) auto
  show ?case
  proof (cases "i \<in> set ids")
    case False
    with Cons.prems show ?thesis by simp
  next
    case True
    show ?thesis
    proof (cases "query_row d i")
      case None
      with True Cons.prems keep show ?thesis by auto
    next
      case (Some p)
      with True Cons.prems(1)
      have "recover_missed d ms (remove1 i ids)
              (lg @ [if \<not> hp_is_deleted p then Error ''missing post: %s'' (Row p)
                     else Warning ''requested deleted post: %s'' (Row p)]) = (r, ids', lg')"
        by simp
      from Cons.IH [OF this] Cons.prems(2) keep show ?thesis by simp
    qed
  qed
qed

lemma recover_missed_log:
  "recover_missed d ms ids lg = (Inr u, ids', lg') \<Longrightarrow>
   \<exists>recs. lg' = lg @ recs
     \<and> list_all2 (\<lambda>i rc. \<exists>p. query_row d i = Some p
          \<and> rc = (if \<not> hp_is_deleted p then Error ''missing post: %s'' (Row p)
                  else Warning ''requested deleted post: %s'' (Row p))) ms recs"
proof (induction ms arbitrary: ids lg)
  case Nil
  then show ?case by simp
next
  case (Cons i ms)
  from Cons.prems obtain p where p: "query_row d i = Some p" and "i \<in> set ids"
    and rest: "recover_missed d ms (remove1 i ids)
              (lg @ [if \<not> hp_is_deleted p then Error ''missing post: %s'' (Row p)
                     else Warning ''requested deleted post: %s'' (Row p)]) = (Inr u, ids', lg')"
    by (auto split: if_splits option.splits)
  from Cons.IH [OF rest] obtain recs where
    "lg' = (lg @ [if \<not> hp_is_deleted p then Error ''missing post: %s'' (Row p)
                     else Warning ''requested deleted post: %s'' (Row p)]) @ recs"
    and "list_all2 (\<lambda>i rc. \<exists>p. query_row d i = Some p
          \<and> rc = (if \<not> hp_is_deleted p then Error ''missing post: %s'' (Row p)
                  else Warning ''requested deleted post: %s'' (Row p))) ms recs"
    by blast
  with p show ?case
    by (intro exI [of _ "(if \<not> hp_is_deleted p then Error ''missing post: %s'' (Row p)
                     else Warning ''requested deleted post: %s'' (Row p)) # recs"]) simp
qed

lemma keyed_missing_filter:
  assumes "load_posts_keyed env d ids n = Inr m"
  shows "filter (\<lambda>i. m i = None) ids = filter (\<lambda>i. \<not> cached d i) ids"
proof (rule filter_cong [OF refl])
  fix i
  assume "i \<in> set ids"
  with load_posts_keyed_keys(1) [OF assms, of i] show "(m i = None) = (\<not> cached d i)"
    by blast
qed

lemma load_posts_unfold:
  assumes keyed: "load_posts_keyed env d ids n = Inr m"
    and ms: "set_iter env (filter (\<lambda>i. \<not> cached d i) ids) = ms"
  shows "load_posts env d ids n =
           (if ms \<noteq> [] then
              (case recover_missed d ms ids
                      [Warning ''get_posts do not exist in cache: %s'' (Ids ms)] of
                 (Inl e, ids', lg) \<Rightarrow> \<lparr>returned = Inl e, ids_after = ids', logged = lg\<rparr>
               | (Inr u, ids', lg) \<Rightarrow>
                   \<lparr>returned = getitems m ids', ids_after = ids', logged = lg\<rparr>)
            else \<lparr>returned = getitems m ids, ids_after = ids, logged = []\<rparr>)"
proof -
  from keyed have "ids \<noteq> []"
    by (auto simp: load_posts_keyed_def)
  then show ?thesis
    by (simp add: load_posts_def keyed keyed_missing_filter [OF keyed] ms Let_def)
qed

lemma load_posts_returned:
  assumes iter: "\<forall>xs. set (set_iter env xs) = set xs"
    and ret: "returned (load_posts env d ids n) = Inr ps"
  shows "ids_after (load_posts env d ids n) = filter (cached d) ids
         \<and> map post_id ps = filter (cached d) ids"
proof (cases "ids = []")
  case True
  with ret show ?thesis
    by (simp add: load_posts_def)
next
  case False
  show ?thesis
  proof (cases "load_posts_keyed env d ids n")
    case (Inl e)
    with False ret show ?thesis
      by (simp add: load_posts_def)
  next
    case (Inr m)
    note keys = load_posts_keyed_keys [OF Inr]
    define ms where "ms = set_iter env (filter (\<lambda>i. m i = None) ids)"
    have ms_set: "set ms = {i \<in> set ids. \<not> cached d i}"
      using iter keyed_missing_filter [OF Inr] by (simp add: ms_def)
    have fetched: "map post_id (map (\<lambda>i. the (m i)) xs) = xs"
      if "\<forall>i \<in> set xs. m i \<noteq> None" for xs
      using that keys(2) by (induction xs) auto
    show ?thesis
    proof (cases "ms = []")
      case True
      with False Inr ret have g: "getitems m ids = Inr ps"
        and after: "ids_after (load_posts env d ids n) = ids"
        by (simp_all add: load_posts_def ms_def)
      from True ms_set have "\<forall>i \<in> set ids. cached d i"
        by auto
      then have "filter (cached d) ids = ids"
        by simp
      moreover from getitems_Inr [OF g] fetched have "map post_id ps = ids"
        by simp
      ultimately show ?thesis
        using after by simp
    next
      case nonempty: False
      obtain r ids' lg' where rec:
        "recover_missed d ms ids [Warning ''get_posts do not exist in cache: %s'' (Ids ms)]
           = (r, ids', lg')"
        by (cases "recover_missed d ms ids
                     [Warning ''get_posts do not exist in cache: %s'' (Ids ms)]") auto
      from False Inr nonempty rec ret have g: "getitems m ids' = Inr ps"
        and after: "ids_after (load_posts env d ids n) = ids'"
        by (cases r; simp add: load_posts_def ms_def [symmetric])+
      from getitems_Inr [OF g] have present: "\<forall>i \<in> set ids'. m i \<noteq> None"
        and ps: "ps = map (\<lambda>i. the (m i)) ids'"
        by simp_all
      from present keys(1) have "\<forall>i \<in> set ids'. cached d i"
        by blast
      then have "filter (cached d) ids' = ids'"
        by simp
      moreover from ms_set have "\<forall>i \<in> set ms. \<not> cached d i"
        by simp
      from recover_missed_filter [OF rec this]
      have "filter (cached d) ids' = filter (cached d) ids" .
      ultimately have "ids' = filter (cached d) ids"
        by simp
      with after ps fetched [OF present] show ?thesis
        by simp
    qed
  qed
qed

lemma load_posts_all_cached:
  assumes iter: "\<forall>xs. set (set_iter env xs) = set xs"
    and all: "\<forall>i \<in> set ids. cached d i"
  shows "ids_after (load_posts env d ids n) = ids \<and> logged (load_posts env d ids n) = []"
proof (cases "load_posts_keyed env d ids n")
  case (Inl e)
  then show ?thesis
    by (simp add: load_posts_def)
next
  case (Inr m)
  from all keyed_missing_filter [OF Inr] have "filter (\<lambda>i. m i = None) ids = []"
    by simp
  moreover from iter have "set_iter env [] = []"
    by (metis set_empty)
  ultimately show ?thesis
    using Inr by (simp add: load_posts_def)
qed

lemma recover_missed_total:
  "distinct ms \<Longrightarrow> set ms = set (filter Q ids) \<Longrightarrow> distinct (filter Q ids) \<Longrightarrow>
   \<forall>i \<in> set ms. query_row d i \<noteq> None \<Longrightarrow>
   \<exists>ids' lg'. recover_missed d ms ids lg = (Inr (), ids', lg') \<and> filter Q ids' = []"
proof (induction ms arbitrary: ids lg)
  case Nil
  then show ?case by simp
next
  case (Cons i ms)
  from Cons.prems(2) have i: "i \<in> set ids" "Q i"
    by auto
  from Cons.prems(4) obtain p where p: "query_row d i = Some p"
    by auto
  have f: "filter Q (remove1 i ids) = remove1 i (filter Q ids)"
    by (simp add: filter_remove1)
  have "set ms = set (filter Q (remove1 i ids))"
    using Cons.prems(1,2,3) by (simp add: f del: filter_remove1) auto
  moreover have "distinct (filter Q (remove1 i ids))"
    using Cons.prems(3) by (simp add: f del: filter_remove1)
  moreover have "distinct ms" "\<forall>j \<in> set ms. query_row d j \<noteq> None"
    using Cons.prems(1,4) by simp_all
  ultimately obtain ids' lg' where
    "recover_missed d ms (remove1 i ids)
       (lg @ [if \<not> hp_is_deleted p then Error ''missing post: %s'' (Row p)
              else Warning ''requested deleted post: %s'' (Row p)]) = (Inr (), ids', lg')"
    "filter Q ids' = []"
    using Cons.IH by blast
  with i p show ?case
    by simp
qed

lemma load_posts_succeeds:
  assumes iter: "\<forall>xs. set (set_iter env xs) = set xs \<and> distinct (set_iter env xs)"
    and keyed: "load_posts_keyed env d ids n = Inr m"
    and once: "distinct (filter (\<lambda>i. \<not> cached d i) ids)"
    and canon: "\<forall>i \<in> set ids. \<not> cached d i \<longrightarrow> query_row d i \<noteq> None"
  shows "\<exists>ps. returned (load_posts env d ids n) = Inr ps"
proof -
  note keys = load_posts_keyed_keys [OF keyed]
  from keyed have ne: "ids \<noteq> []"
    by (auto simp: load_posts_keyed_def)
  define ms where "ms = set_iter env (filter (\<lambda>i. m i = None) ids)"
  have ms_eq: "ms = set_iter env (filter (\<lambda>i. \<not> cached d i) ids)"
    by (simp add: ms_def keyed_missing_filter [OF keyed])
  show ?thesis
  proof (cases "ms = []")
    case True
    with iter ms_eq have "filter (\<lambda>i. \<not> cached d i) ids = []"
      by (metis set_empty)
    then have "\<forall>i \<in> set ids. m i \<noteq> None"
      using keys(1) by (auto simp: filter_empty_conv)
    from getitems_total [OF this] True ne keyed show ?thesis
      by (simp add: load_posts_def ms_def)
  next
    case False
    have "distinct ms" "set ms = set (filter (\<lambda>i. \<not> cached d i) ids)"
      using iter by (simp_all add: ms_eq)
    moreover have "\<forall>i \<in> set ms. query_row d i \<noteq> None"
      using canon iter by (simp add: ms_eq)
    ultimately obtain ids' lg' where rec:
      "recover_missed d ms ids [Warning ''get_posts do not exist in cache: %s'' (Ids ms)]
         = (Inr (), ids', lg')"
      and none: "filter (\<lambda>i. \<not> cached d i) ids' = []"
      using recover_missed_total [OF _ _ once] by blast
    from none have c: "\<forall>i \<in> set ids'. cached d i"
      by (auto simp: filter_empty_conv)
    have "\<forall>i \<in> set ms. \<not> cached d i"
      using iter by (simp add: ms_eq)
    from recover_missed_filter [OF rec this] c have "ids' = filter (cached d) ids"
      by (metis filter_True)
    with keys(1) have "\<forall>i \<in> set ids'. m i \<noteq> None"
      by simp
    from getitems_total [OF this] False ne keyed rec show ?thesis
      by (simp add: load_posts_def ms_def [symmetric])
  qed
qed

lemma load_posts_logged:
  assumes iter: "\<forall>xs. set (set_iter env xs) = set xs"
    and ret: "returned (load_posts env d ids n) = Inr ps"
    and missing: "\<not> (\<forall>i \<in> set ids. cached d i)"
  shows "\<exists>recs. logged (load_posts env d ids n) =
           Warning ''get_posts do not exist in cache: %s''
             (Ids (set_iter env (filter (\<lambda>i. \<not> cached d i) ids))) # recs
         \<and> list_all2 (\<lambda>i rc. \<exists>p. query_row d i = Some p
              \<and> rc = (if \<not> hp_is_deleted p then Error ''missing post: %s'' (Row p)
                      else Warning ''requested deleted post: %s'' (Row p)))
             (set_iter env (filter (\<lambda>i. \<not> cached d i) ids)) recs"
proof -
  from missing have ne: "ids \<noteq> []"
    by auto
  from ne ret obtain m where keyed: "load_posts_keyed env d ids n = Inr m"
    by (cases "load_posts_keyed env d ids n") (auto simp: load_posts_def)
  define ms where "ms = set_iter env (filter (\<lambda>i. m i = None) ids)"
  have ms_eq: "ms = set_iter env (filter (\<lambda>i. \<not> cached d i) ids)"
    by (simp add: ms_def keyed_missing_filter [OF keyed])
  from missing iter have nonempty: "ms \<noteq> []"
    by (auto simp: ms_eq simp flip: set_empty)
  obtain r ids' lg' where rec:
    "recover_missed d ms ids [Warning ''get_posts do not exist in cache: %s'' (Ids ms)]
       = (r, ids', lg')"
    by (cases "recover_missed d ms ids
                 [Warning ''get_posts do not exist in cache: %s'' (Ids ms)]") auto
  from ne keyed nonempty rec ret obtain u where r: "r = Inr u"
    and lg: "logged (load_posts env d ids n) = lg'"
    by (cases r; simp add: load_posts_def ms_def [symmetric])
  from recover_missed_log [OF rec [unfolded r]] lg show ?thesis
    by (auto simp: ms_eq)
qed

subsection \<open>The sample storage evaluated\<close>

lemma sample_iter:
  "\<forall>xs. set (set_iter sample_env xs) = set xs \<and> distinct (set_iter sample_env xs)"
  by (simp add: sample_env_def)

lemma sample_set_iter: "set_iter sample_env xs = remdups xs"
  by (simp add: sample_env_def)

lemma sample_cached: "cached sample_db i \<longleftrightarrow> i = 5 \<or> i = 7"
  by (auto simp: cached_def sample_db_def sample_row_fields)

lemma sample_query_row:
  "query_row sample_db 6 = Some (sample_canonical 6 ''carol'' True)"
  "query_row sample_db 8 = Some (sample_canonical 8 ''dave'' False)"
  by (simp_all add: query_row_def sample_db_def sample_canonical_def)

lemma sample_keyed:
  assumes "ids = [5, 6, 7] \<or> ids = [5, 7]"
  shows "\<exists>m. load_posts_keyed sample_env sample_db ids 0 = Inr m"
proof -
  let ?r5 = "sample_row 5 ''alice'' ''life'' 0 False"
  let ?r7 = "sample_row 7 ''bob'' ''life'' 0 True"
  from assms have q: "query_cache sample_db ids = [?r5, ?r7]"
    by (auto simp: query_cache_def sample_db_def sample_row_fields)
  have reps: "query_author_rep_map sample_db [?r5, ?r7] = [''alice'' \<mapsto> 25, ''bob'' \<mapsto> 30]"
    by (simp add: query_author_rep_map_def sample_db_def sample_row_fields)
  obtain p5 where p5: "condenser_post_object sample_env ?r5 (RepNum 25) 0 = Inr p5"
    using sample_row_builds by blast
  obtain p7 where p7: "condenser_post_object sample_env ?r7 (RepNum 30) 0 = Inr p7"
    using sample_row_builds by blast
  from assms show ?thesis
    by (auto simp: load_posts_keyed_def q reps p5 p7 sample_row_fields)
qed

lemma sample_load_567:
  "ids_after (load_posts sample_env sample_db [5, 6, 7] 0) = [5, 7]
   \<and> map_sum id (map post_id) (returned (load_posts sample_env sample_db [5, 6, 7] 0))
       = Inr [5, 7]
   \<and> logged (load_posts sample_env sample_db [5, 6, 7] 0) =
       [Warning ''get_posts do not exist in cache: %s'' (Ids [6]),
        Warning ''requested deleted post: %s'' (Row (sample_canonical 6 ''carol'' True))]"
proof -
  obtain m where m: "load_posts_keyed sample_env sample_db [5, 6, 7] 0 = Inr m"
    using sample_keyed by blast
  note keys = load_posts_keyed_keys [OF m]
  have ms: "set_iter sample_env (filter (\<lambda>i. \<not> cached sample_db i) [5, 6, 7]) = [6]"
    by (simp add: sample_set_iter sample_cached)
  from keys(1) [of 5] keys(1) [of 7] obtain p5 p7 where p: "m 5 = Some p5" "m 7 = Some p7"
    by (auto simp: sample_cached)
  from keys(2) [of 5] keys(2) [of 7] p have "post_id p5 = 5" "post_id p7 = 7"
    by simp_all
  then show ?thesis
    by (simp add: load_posts_unfold [OF m ms] sample_query_row p sample_canonical_def)
qed

subsection \<open>Claims about the batch loaders\<close>

text \<open>
  C3: \<open>load_posts_keyed\<close> called with an empty collection of ids raises the failed
  assertion, whatever the storage holds; it does not return an empty mapping.
\<close>

theorem load_posts_keyed_empty:
  "load_posts_keyed env d [] n = Inl AssertionError
   \<and> load_posts_keyed env d [] n \<noteq> Inr Map.empty"
  by (simp add: load_posts_keyed_def)

text \<open>
  C1: the claim is that, for every sequence of ids, \<open>load_posts\<close> returns the posts
  of the cached ids in the caller's order and drops the ids without a cache row, logging
  a warning or an error for each, without raising. Here the ids are 6 and 6 again, post 6
  has no cache row and its canonical record is marked deleted: the recovery loop removes
  one occurrence of 6 from the list and logs the warning, the second occurrence stays in
  the list, and the final lookup of 6 among the posts built raises KeyError.
\<close>

theorem load_posts_repeated_missing_id:
  "load_posts sample_env sample_db [6, 6] 0 =
     \<lparr>returned = Inl KeyError, ids_after = [6],
      logged = [Warning ''get_posts do not exist in cache: %s'' (Ids [6]),
                Warning ''requested deleted post: %s''
                  (Row (sample_canonical 6 ''carol'' True))]\<rparr>"
proof -
  have q: "query_cache sample_db [6, 6] = []"
    by (simp add: query_cache_def sample_db_def sample_row_fields)
  have fl: "query_flags sample_db [6, 6] = [sample_canonical 6 ''carol'' True]"
    by (simp add: query_flags_def sample_db_def sample_canonical_def)
  have m: "load_posts_keyed sample_env sample_db [6, 6] 0 = Inr Map.empty"
    by (simp add: load_posts_keyed_def q fl query_author_rep_map_def)
  have ms: "set_iter sample_env (filter (\<lambda>i. \<not> cached sample_db i) [6, 6]) = [6]"
    by (simp add: sample_set_iter sample_cached)
  show ?thesis
    by (simp add: load_posts_unfold [OF m ms] sample_query_row sample_canonical_def)
qed

text \<open>
  C2, as the code has it: a call of \<open>load_posts\<close> all of whose ids have a cache row
  leaves the caller's list of ids as it was; a call that returns has removed from the
  caller's list every id without a cache row, so that the list afterwards holds the ids
  with a cache row, in their order. The storage is only read.
\<close>

theorem load_posts_ids_after:
  assumes "\<forall>xs. set (set_iter env xs) = set xs"
  shows "((\<forall>i \<in> set ids. cached d i) \<longrightarrow> ids_after (load_posts env d ids n) = ids)
         \<and> (\<forall>ps. returned (load_posts env d ids n) = Inr ps \<longrightarrow>
               ids_after (load_posts env d ids n) = filter (cached d) ids)"
  using load_posts_all_cached [OF assms] load_posts_returned [OF assms] by blast

theorem load_posts_ids_after_witness:
  "ids_after (load_posts sample_env sample_db [5, 7] 0) = [5, 7]
   \<and> ids_after (load_posts sample_env sample_db [5, 6, 7] 0) = filter (cached sample_db) [5, 6, 7]
   \<and> filter (cached sample_db) [5, 6, 7] = [5, 7]"
proof -
  have iter: "\<forall>xs. set (set_iter sample_env xs) = set xs"
    using sample_iter by simp
  obtain m where m: "load_posts_keyed sample_env sample_db [5, 6, 7] 0 = Inr m"
    using sample_keyed by blast
  have "distinct (filter (\<lambda>i. \<not> cached sample_db i) [5, 6, 7])"
    and "\<forall>i \<in> set [5, 6, 7]. \<not> cached sample_db i \<longrightarrow> query_row sample_db i \<noteq> None"
    by (simp_all add: sample_cached sample_query_row)
  from load_posts_succeeds [OF sample_iter m this]
  obtain ps where ps: "returned (load_posts sample_env sample_db [5, 6, 7] 0) = Inr ps"
    by blast
  from load_posts_ids_after [OF iter, of "[5, 7]" sample_db 0]
       load_posts_ids_after [OF iter, of "[5, 6, 7]" sample_db 0] ps
  show ?thesis
    by (simp add: sample_cached)
qed

text \<open>
  C2 as stated, that the caller's list of ids is unchanged also when some ids have no
  cache row, fails for the ids 5, 6, 7 with post 6 not cached: the list is 5, 7 after the
  call.
\<close>

theorem load_posts_mutates_ids:
  "ids_after (load_posts sample_env sample_db [5, 6, 7] 0) \<noteq> [5, 6, 7]"
  using sample_load_567 by simp

end
